theory Spec2Isabelle
  imports Main "HOL-Library.Word"
begin

section \<open>Envelopes of the log bus (loggregator v2)\<close>

type_synonym byte = "8 word"

text \<open>\<open>Log_Type\<close> is an \<open>int32\<close> with the two named constants \<open>Log_OUT\<close> and \<open>Log_ERR\<close>;
  every other 32-bit value is a well-formed, unnamed log type.\<close>

type_synonym Log_Type = "32 word"

definition Log_OUT :: Log_Type where
  "Log_OUT = 0"

definition Log_ERR :: Log_Type where
  "Log_ERR = 1"

record Log =
  Payload :: "byte list"
  Type :: Log_Type

datatype Value = Value_Text string | Value_Integer "64 word" | Value_Decimal

datatype Counter_Value = Counter_Delta "64 word" | Counter_Total "64 word"

record Counter =
  Name :: string
  CValue :: "Counter_Value option"

text \<open>The \<open>oneof\<close> body of an envelope. A \<open>Log\<close> or \<open>Counter\<close> wrapper may hold a nil pointer.\<close>

datatype Envelope_Message =
    Envelope_Log "Log option"
  | Envelope_Counter "Counter option"
  | Envelope_Gauge
  | Envelope_Timer

record Envelope =
  Timestamp :: "64 word"
  SourceId :: string
  InstanceId :: string
  Tags :: "string \<rightharpoonup> Value"
  Message :: "Envelope_Message option"

definition GetLog :: "Envelope \<Rightarrow> Log option" where
  "GetLog m = (case Message m of Some (Envelope_Log x) \<Rightarrow> x | _ \<Rightarrow> None)"

definition GetCounter :: "Envelope \<Rightarrow> Counter option" where
  "GetCounter m = (case Message m of Some (Envelope_Counter x) \<Rightarrow> x | _ \<Rightarrow> None)"

definition GetDeltaOf :: "Counter option \<Rightarrow> 64 word" where
  "GetDeltaOf c = (case c of Some x \<Rightarrow> (case CValue x of Some (Counter_Delta d) \<Rightarrow> d | _ \<Rightarrow> 0)
                   | None \<Rightarrow> 0)"

definition GetText :: "Value option \<Rightarrow> string" where
  "GetText v = (case v of Some (Value_Text s) \<Rightarrow> s | _ \<Rightarrow> [])"


section \<open>The drain writer: adapter/internal/egress/tcp.go\<close>

subsection \<open>Message construction\<close>

text \<open>\<open>bytes.Replace(msg, []byte{0}, nil, -1)\<close>: every occurrence of the one-byte pattern
  \<open>0x00\<close> is replaced by nothing.\<close>

definition removeNulls :: "byte list \<Rightarrow> byte list" where
  "removeNulls msg = filter (\<lambda>b. b \<noteq> 0) msg"

definition HasSuffix :: "byte list \<Rightarrow> byte list \<Rightarrow> bool" where
  "HasSuffix s suffix =
     (length suffix \<le> length s \<and> drop (length s - length suffix) s = suffix)"

definition appendNewline :: "byte list \<Rightarrow> byte list" where
  "appendNewline msg = (if \<not> HasSuffix msg [10] then msg @ [10] else msg)"

text \<open>\<open>rfc5424.Priority\<close> is an \<open>int\<close>; \<open>Info = 6\<close>, \<open>Error = 3\<close>, \<open>User = 1 << 3\<close>.\<close>

definition rfc5424_Info :: int where "rfc5424_Info = 6"
definition rfc5424_Error :: int where "rfc5424_Error = 3"
definition rfc5424_User :: int where "rfc5424_User = 8"

definition generatePriority :: "Log_Type \<Rightarrow> int" where
  "generatePriority logType =
     (if logType = Log_OUT then rfc5424_Info + rfc5424_User
      else if logType = Log_ERR then rfc5424_Error + rfc5424_User
      else - 1)"

text \<open>\<open>strings.ToUpper\<close> for ASCII text: the letters \<open>a\<close> to \<open>z\<close> are mapped to upper case and
  every other byte is kept. For a source type with bytes outside ASCII Go also maps the other
  Unicode letters and replaces invalid UTF-8; such tags are outside this model, and nothing
  below depends on the process id.\<close>

definition upperChar :: "char \<Rightarrow> char" where
  "upperChar c = (let n = (of_char c :: nat) in
                  if 97 \<le> n \<and> n \<le> 122 then char_of (n - 32) else c)"

definition generateProcessID :: "string \<Rightarrow> string \<Rightarrow> string" where
  "generateProcessID sourceType sourceInstance =
     (let st = map upperChar sourceType in
      if sourceInstance \<noteq> [] then ''['' @ st @ ''/'' @ sourceInstance @ '']''
      else ''['' @ st @ '']'')"

text \<open>The fields of \<open>rfc5424.Message\<close> that \<open>Write\<close> fills in.\<close>

record rfc5424_Message =
  Priority :: int
  MsgTimestamp :: "64 word"
  MsgHostname :: string
  AppName :: string
  ProcessID :: string
  MsgBody :: "byte list"



subsection \<open>Writer state and the outside world\<close>

text \<open>The fields of \<open>TCPWriter\<close> that the methods read or write. \<open>conn\<close> is the handle of the
  open connection (\<open>None\<close> for nil); \<open>egressMetric\<close> is the delta of the counter the writer
  increments. The context is observed through \<open>contextDone\<close>, which belongs to the dial events
  below.\<close>

record TCPWriter =
  url_Host :: string
  appID :: string
  hostname :: string
  conn :: "nat option"
  closed :: bool
  egressMetric :: "64 word"

text \<open>Durations are nanoseconds, as in \<open>time.Duration\<close>.\<close>

definition time_Second :: int where
  "time_Second = 1000000000"

definition time_Minute :: int where
  "time_Minute = 60 * time_Second"

text \<open>What the writer does to its surroundings, in order of occurrence: the hosts passed to
  \<open>dialFunc\<close>, the durations passed to \<open>time.Sleep\<close>, every call of \<open>msg.WriteTo(conn)\<close>
  with the connection, the message and the error it returned, and the connections closed.
  Logging and the write deadline are left out.\<close>

record World =
  dialed :: "string list"
  slept :: "int list"
  wire :: "(nat \<times> rfc5424_Message \<times> string option) list"
  conn_closed :: "nat list"

text \<open>The outcome of one call of \<open>dialFunc\<close>: a connection, or an error together with what
  \<open>contextDone(w.ctx)\<close> reports right after it.\<close>

datatype dial_event = DialOk nat | DialErr string bool

definition errAfterClose :: string where
  "errAfterClose = ''attempting connect after close''"

text \<open>\<open>connect\<close> loops until a dial succeeds, the writer is closed or the context is done. The
  list holds the outcomes of the successive dials; \<open>None\<close> means that the loop is still
  retrying when the list is used up.\<close>

fun connect :: "dial_event list \<Rightarrow> TCPWriter \<Rightarrow> World
                \<Rightarrow> ((string + nat) \<times> TCPWriter \<times> World) option" where
  "connect [] w wd = (if closed w then Some (Inl errAfterClose, w, wd) else None)"
| "connect (ev # evs) w wd =
     (if closed w then Some (Inl errAfterClose, w, wd)
      else let wd1 = wd\<lparr>dialed := dialed wd @ [url_Host w]\<rparr> in
        (case ev of
           DialErr err done \<Rightarrow>
             (if done then Some (Inl err, w, wd1)
              else connect evs w (wd1\<lparr>slept := slept wd1 @ [time_Minute]\<rparr>))
         | DialOk c \<Rightarrow> Some (Inr c, w\<lparr>conn := Some c\<rparr>, wd1)))"

definition connection :: "dial_event list \<Rightarrow> TCPWriter \<Rightarrow> World
                \<Rightarrow> ((string + nat) \<times> TCPWriter \<times> World) option" where
  "connection evs w wd =
     (case conn w of None \<Rightarrow> connect evs w wd | Some c \<Rightarrow> Some (Inr c, w, wd))"

text \<open>\<open>cerr\<close> is the error that \<open>conn.Close()\<close> returns if it is called.\<close>

definition connClose :: "string option \<Rightarrow> TCPWriter \<Rightarrow> World
                \<Rightarrow> string option \<times> TCPWriter \<times> World" where
  "connClose cerr w wd =
     (case conn w of
        Some c \<Rightarrow> (cerr, w\<lparr>conn := None\<rparr>, wd\<lparr>conn_closed := conn_closed wd @ [c]\<rparr>)
      | None \<Rightarrow> (None, w, wd))"

definition Close :: "string option \<Rightarrow> TCPWriter \<Rightarrow> World
                \<Rightarrow> string option \<times> TCPWriter \<times> World" where
  "Close cerr w wd = connClose cerr (w\<lparr>closed := True\<rparr>) wd"

text \<open>The message \<open>Write\<close> builds for a log \<open>l\<close> carried by the envelope \<open>env\<close>.\<close>

definition buildMessage :: "TCPWriter \<Rightarrow> Envelope \<Rightarrow> Log \<Rightarrow> rfc5424_Message" where
  "buildMessage w env l =
     \<lparr>Priority = generatePriority (Type l),
      MsgTimestamp = Timestamp env,
      MsgHostname = hostname w,
      AppName = appID w,
      ProcessID = generateProcessID (GetText (Tags env ''source_type''))
                                    (GetText (Tags env ''source_instance'')),
      MsgBody = appendNewline (removeNulls (Payload l))\<rparr>"

text \<open>\<open>Write\<close>. \<open>evs\<close> are the outcomes of the dials it may need, \<open>io\<close> the error returned by
  \<open>msg.WriteTo(conn)\<close> (the encoder and the socket, both outside this program) and \<open>cerr\<close> the
  error of \<open>conn.Close()\<close>. The result is the returned error with the new writer and world, or
  \<open>None\<close> while \<open>connect\<close> is still retrying.\<close>

definition Write :: "dial_event list \<Rightarrow> string option \<Rightarrow> string option \<Rightarrow> Envelope
                \<Rightarrow> TCPWriter \<Rightarrow> World \<Rightarrow> (string option \<times> TCPWriter \<times> World) option" where
  "Write evs io cerr env w wd =
     (case GetLog env of
        None \<Rightarrow> Some (None, w, wd)
      | Some l \<Rightarrow>
          (case connection evs w wd of
             None \<Rightarrow> None
           | Some (Inl err, w1, wd1) \<Rightarrow> Some (Some err, w1, wd1)
           | Some (Inr c, w1, wd1) \<Rightarrow>
               (let wd2 = wd1\<lparr>wire := wire wd1 @ [(c, buildMessage w env l, io)]\<rparr> in
                case io of
                  Some err \<Rightarrow> (case connClose cerr w1 wd2 of (_, w2, wd3) \<Rightarrow> Some (Some err, w2, wd3))
                | None \<Rightarrow> Some (None, w1\<lparr>egressMetric := egressMetric w1 + 1\<rparr>, wd2))))"


section \<open>The counter metric: internal/metricemitter/counter_metric.go\<close>

record CounterMetric =
  cm_name :: string
  cm_sourceID :: string
  cm_tags :: "string \<rightharpoonup> Value"
  delta :: "64 word"

definition Increment :: "64 word \<Rightarrow> CounterMetric \<Rightarrow> CounterMetric" where
  "Increment c m = m\<lparr>delta := delta m + c\<rparr>"

definition GetDelta :: "CounterMetric \<Rightarrow> 64 word" where
  "GetDelta m = delta m"

text \<open>\<open>now\<close> is the reading of \<open>time.Now().UnixNano()\<close>.\<close>

definition toEnvelope :: "64 word \<Rightarrow> CounterMetric \<Rightarrow> 64 word \<Rightarrow> Envelope" where
  "toEnvelope now m d =
     \<lparr>Timestamp = now, SourceId = cm_sourceID m, InstanceId = [], Tags = cm_tags m,
      Message = Some (Envelope_Counter
                 (Some \<lparr>Name = cm_name m, CValue = Some (Counter_Delta d)\<rparr>))\<rparr>"

text \<open>\<open>SendWith\<close>, run without interleaving: swap the delta for zero, call \<open>fn\<close> on the
  envelope, add the swapped value back when \<open>fn\<close> returns an error.\<close>

definition SendWith :: "(Envelope \<Rightarrow> string option) \<Rightarrow> 64 word \<Rightarrow> CounterMetric
                \<Rightarrow> string option \<times> CounterMetric" where
  "SendWith fn now m =
     (let d = delta m; m1 = m\<lparr>delta := 0\<rparr> in
      case fn (toEnvelope now m1 d) of
        Some err \<Rightarrow> (Some err, m1\<lparr>delta := delta m1 + d\<rparr>)
      | None \<Rightarrow> (None, m1))"


section \<open>The subscription worker: adapter/internal/ingress (subscriber)\<close>

text \<open>\<open>Start\<close> declares \<open>var unsubscribe int32\<close>, which is zero, and returns a function that
  adds one to it atomically.\<close>

definition unsubscribe_init :: "32 word" where
  "unsubscribe_init = 0"

definition stop :: "32 word \<Rightarrow> 32 word" where
  "stop unsubscribe = unsubscribe + 1"

text \<open>What one turn of the read/write loop observes: the value loaded from the flag, the
  result of \<open>r.Recv()\<close>, the clock reading behind \<open>time.Since(lastEmitted)\<close> and the reading
  of the \<open>time.Now()\<close> that resets \<open>lastEmitted\<close> (nanoseconds).\<close>

record Iteration =
  flag_seen :: "32 word"
  recv :: "string + Envelope"
  since_at :: int
  now_at :: int

text \<open>The loop's variables \<open>count\<close> and \<open>lastEmitted\<close>, and what it has done so far: the
  increments passed to \<open>IncCounter("ingress", ...)\<close>, the envelopes passed to \<open>w.Write\<close> and the
  number of calls of \<open>r.Recv()\<close>.\<close>

record Loop =
  count :: "64 word"
  lastEmitted :: int
  ingress :: "64 word list"
  written :: "Envelope list"
  received :: nat

text \<open>The \<open>for\<close> loop of \<open>readWriteLoop\<close>; \<open>None\<close> means that it is still running (blocked in
  \<open>Recv\<close>) when the observations are used up, otherwise the returned error.\<close>

fun loop :: "Iteration list \<Rightarrow> Loop \<Rightarrow> (string option \<times> Loop) option" where
  "loop [] st = None"
| "loop (it # its) st =
     (if 0 < sint (flag_seen it) then Some (None, st)
      else let st1 = st\<lparr>received := received st + 1\<rparr> in
        (case recv it of
           Inl err \<Rightarrow> Some (Some err, st1)
         | Inr env \<Rightarrow>
             (if GetLog env = None then loop its st1
              else let c = count st1 + 1;
                       st2 = (if 1000 \<le> c \<or> 5 * time_Second < since_at it - lastEmitted st1
                              then st1\<lparr>count := 0, lastEmitted := now_at it,
                                       ingress := ingress st1 @ [c]\<rparr>
                              else st1\<lparr>count := c\<rparr>)
                   in loop its (st2\<lparr>written := written st2 @ [env]\<rparr>))))"

text \<open>\<open>t0\<close> is the reading of the first \<open>time.Now()\<close>.\<close>

definition readWriteLoop :: "int \<Rightarrow> Iteration list \<Rightarrow> (string option \<times> Loop) option" where
  "readWriteLoop t0 its =
     loop its \<lparr>count = 0, lastEmitted = t0, ingress = [], written = [], received = 0\<rparr>"

text \<open>One session as the worker meets it: \<open>Connect\<close> fails, or \<open>client.Receiver\<close> fails, or
  the stream is read by the loop.\<close>

datatype attempt = ConnectErr string | ReceiverErr string | Stream int "Iteration list"

text \<open>The calls the worker has made: \<open>connector.Connect\<close>, the deferred \<open>writer.Close\<close>,
  \<open>client.Receiver\<close>, the deferred \<open>cancel\<close>, and the final state of every finished loop.\<close>

record Trace =
  connects :: nat
  writer_closes :: nat
  receiver_calls :: nat
  cancels :: nat
  loops :: "Loop list"

definition attemptConnectAndRead :: "attempt \<Rightarrow> Trace \<Rightarrow> (bool \<times> Trace) option" where
  "attemptConnectAndRead a tr =
     (let tr1 = tr\<lparr>connects := connects tr + 1\<rparr> in
      case a of
        ConnectErr err \<Rightarrow> Some (False, tr1)
      | ReceiverErr err \<Rightarrow>
          Some (True, tr1\<lparr>receiver_calls := receiver_calls tr1 + 1,
                          writer_closes := writer_closes tr1 + 1\<rparr>)
      | Stream t0 its \<Rightarrow>
          (case readWriteLoop t0 its of
             None \<Rightarrow> None
           | Some (r, st) \<Rightarrow>
               Some (r \<noteq> None,
                     tr1\<lparr>receiver_calls := receiver_calls tr1 + 1,
                         loops := loops tr1 @ [st],
                         cancels := cancels tr1 + 1,
                         writer_closes := writer_closes tr1 + 1\<rparr>)))"

text \<open>The outer loop; \<open>None\<close> means that the worker is still running when the sessions are
  used up.\<close>

fun connectAndRead :: "attempt list \<Rightarrow> Trace \<Rightarrow> Trace option" where
  "connectAndRead [] tr = None"
| "connectAndRead (a # as) tr =
     (case attemptConnectAndRead a tr of
        None \<Rightarrow> None
      | Some (cont, tr1) \<Rightarrow> if cont then connectAndRead as tr1 else Some tr1)"


section \<open>The version filter of the scheduler\<close>

record Binding =
  Drains :: "string list"
  Hostname :: string

type_synonym AppBindings = "string \<rightharpoonup> Binding"

text \<open>\<open>parse\<close> stands for \<open>url.Parse\<close> followed by \<open>Query()\<close>: the query parameters of a drain
  URL, or \<open>None\<close> when the URL does not parse. \<open>Get\<close> is the first value of a key, or the
  empty string.\<close>

definition query_Get :: "(string \<times> string) list \<Rightarrow> string \<Rightarrow> string" where
  "query_Get q k = (case map_of q k of Some v \<Rightarrow> v | None \<Rightarrow> [])"

definition keepDrain :: "(string \<Rightarrow> (string \<times> string) list option) \<Rightarrow> string \<Rightarrow> bool" where
  "keepDrain parse d =
     (case parse d of None \<Rightarrow> False | Some q \<Rightarrow> query_Get q ''drain-version'' = ''2.0'')"

text \<open>Modelled from the spec: the source of \<open>VersionFilter.FetchBindings\<close> is missing (only its
  test file is present). The filter removes any drain URL that fails to parse or lacks
  \<open>drain-version=2.0\<close> in its query; an app whose drains are all removed disappears from the
  result; an error of the wrapped reader is passed on. The
  sentence of section 6 that other schemes than \<open>syslog\<close> and \<open>syslog-tls\<close> are rejected is
  not part of this definition: a filter that also tests the scheme keeps a subset of these
  drains.\<close>

definition VersionFilter :: "(string \<Rightarrow> (string \<times> string) list option) \<Rightarrow> AppBindings
                \<Rightarrow> AppBindings" where
  "VersionFilter parse input =
     (\<lambda>app. case input app of
               None \<Rightarrow> None
             | Some b \<Rightarrow>
                 (let ds = filter (keepDrain parse) (Drains b) in
                  if ds = [] then None else Some (b\<lparr>Drains := ds\<rparr>)))"

definition FetchBindings :: "(string \<Rightarrow> (string \<times> string) list option)
                \<Rightarrow> string + AppBindings \<Rightarrow> string + AppBindings" where
  "FetchBindings parse fetched =
     (case fetched of Inl err \<Rightarrow> Inl err | Inr input \<Rightarrow> Inr (VersionFilter parse input))"


section \<open>Runs of the read/write loop\<close>

text \<open>A turn of the loop \<open>receives\<close> when the flag it loads is not positive and \<open>Recv\<close>
  returns an envelope; it \<open>ends\<close> the loop when the flag is positive or \<open>Recv\<close> returns an
  error. \<open>result_of\<close> is the error the loop returns at an ending turn and \<open>recvs_of\<close> the
  number of \<open>Recv\<close> calls of that turn.\<close>

definition receives :: "Iteration \<Rightarrow> bool" where
  "receives it = (\<not> 0 < sint (flag_seen it) \<and> (case recv it of Inr env \<Rightarrow> True | Inl err \<Rightarrow> False))"

definition ends :: "Iteration \<Rightarrow> bool" where
  "ends it = (0 < sint (flag_seen it) \<or> (case recv it of Inr env \<Rightarrow> False | Inl err \<Rightarrow> True))"

definition result_of :: "Iteration \<Rightarrow> string option" where
  "result_of it = (if 0 < sint (flag_seen it) then None
                   else case recv it of Inl err \<Rightarrow> Some err | Inr env \<Rightarrow> None)"

definition recvs_of :: "Iteration \<Rightarrow> nat" where
  "recvs_of it = (if 0 < sint (flag_seen it) then 0 else 1)"

text \<open>The envelope of a turn if its body is a \<open>Log\<close>, the log envelopes of a run in order,
  and the two clock readings of every turn that received one.\<close>

definition log_of :: "Iteration \<Rightarrow> Envelope list" where
  "log_of it = (case recv it of Inr env \<Rightarrow> if GetLog env = None then [] else [env] | Inl err \<Rightarrow> [])"

definition log_envs :: "Iteration list \<Rightarrow> Envelope list" where
  "log_envs its = concat (map log_of its)"

definition log_turns :: "Iteration list \<Rightarrow> (int \<times> int) list" where
  "log_turns its = map (\<lambda>it. (since_at it, now_at it)) (filter (\<lambda>it. log_of it \<noteq> []) its)"

text \<open>Follows the spec's words (section 4.4, counter emissions): every 1,000 envelopes or 5
  seconds, whichever first, the \<open>ingress\<close> counter is incremented by the batched count.
  \<open>n\<close> is the number of log envelopes since the last emission, \<open>l0\<close> the time of the last
  emission, and the list holds the readings \<open>(t, t')\<close> of the log envelopes still to come;
  the result is the list of increments, in order.\<close>

fun spec_batches :: "nat \<Rightarrow> int \<Rightarrow> (int \<times> int) list \<Rightarrow> nat list" where
  "spec_batches n l0 [] = []"
| "spec_batches n l0 ((t, t') # ts) =
     (if 1000 \<le> n + 1 \<or> 5 * time_Second < t - l0 then (n + 1) # spec_batches 0 t' ts
      else spec_batches (n + 1) l0 ts)"


section \<open>Example values\<close>

text \<open>A counter envelope and a log envelope as the fake logs provider builds them, an
  unconnected writer, an empty world and a counter holding seven.\<close>

definition counterEnv :: Envelope where
  "counterEnv = \<lparr>Timestamp = 0, SourceId = ''app'', InstanceId = [], Tags = Map.empty,
     Message = Some (Envelope_Counter (Some \<lparr>Name = ''some-counter-name'', CValue = Some (Counter_Delta 42)\<rparr>))\<rparr>"

definition logEnv :: "Log_Type \<Rightarrow> Envelope" where
  "logEnv t = \<lparr>Timestamp = 0, SourceId = ''app'', InstanceId = [],
     Tags = [''source_type'' \<mapsto> Value_Text ''APP'', ''source_instance'' \<mapsto> Value_Text ''3''],
     Message = Some (Envelope_Log (Some \<lparr>Payload = [104, 105], Type = t\<rparr>))\<rparr>"

definition writer0 :: TCPWriter where
  "writer0 = \<lparr>url_Host = ''example.com:1234'', appID = ''app'', hostname = ''host'',
               conn = None, closed = False, egressMetric = 0\<rparr>"

definition world0 :: World where
  "world0 = \<lparr>dialed = [], slept = [], wire = [], conn_closed = []\<rparr>"

definition metric0 :: CounterMetric where
  "metric0 = \<lparr>cm_name = ''egress'', cm_sourceID = ''adapter'', cm_tags = Map.empty, delta = 7\<rparr>"


text \<open>A turn of the loop that sees the flag set, a turn that receives an envelope at time \<open>t\<close>,
  a loop state with a given count, and an empty trace.\<close>

definition stopIt :: Iteration where
  "stopIt = \<lparr>flag_seen = 1, recv = Inl ''unused'', since_at = 0, now_at = 0\<rparr>"

definition recvIt :: "Envelope \<Rightarrow> int \<Rightarrow> Iteration" where
  "recvIt env t = \<lparr>flag_seen = 0, recv = Inr env, since_at = t, now_at = t + 1\<rparr>"

definition loop0 :: "64 word \<Rightarrow> Loop" where
  "loop0 c = \<lparr>count = c, lastEmitted = 0, ingress = [], written = [], received = 0\<rparr>"

definition trace0 :: Trace where
  "trace0 = \<lparr>connects = 0, writer_closes = 0, receiver_calls = 0, cancels = 0, loops = []\<rparr>"

text \<open>The drain URLs of the version filter's tests with what \<open>url.Parse\<close> makes of them (the
  URLs that start with \<open>://\<close> have no scheme and do not parse), and the input of the test
  \<open>ignores malformed drain URLs\<close>.\<close>

definition testParse :: "string \<Rightarrow> (string \<times> string) list option" where
  "testParse d =
     (if d = ''syslog://example.com:1234/?drain-version=2.0'' then Some [(''drain-version'', ''2.0'')]
      else if d = ''syslog://example.net:4321/'' then Some []
      else None)"

definition malformedInput :: AppBindings where
  "malformedInput =
     [''app-id-with-malformed-drains'' \<mapsto>
        \<lparr>Drains = [''://some-bad-url/?drain-version=2.0'',
                   ''syslog://example.com:1234/?drain-version=2.0'',
                   ''syslog://example.net:4321/''],
         Hostname = ''we.dont.care''\<rparr>,
      ''app-id-with-single-malformed-drain'' \<mapsto>
        \<lparr>Drains = [''://another-bad-url/?drain-version=2.0''], Hostname = ''we.dont.care''\<rparr>]"


text \<open>A run of four turns: a counter envelope, then three log envelopes of which the second
  arrives more than five seconds after the start.\<close>

definition mixedRun :: "Iteration list" where
  "mixedRun = [recvIt counterEnv 7, recvIt (logEnv 0) 8, recvIt (logEnv 1) 5000000001,
               recvIt (logEnv 0) 5000000003]"


section \<open>Theorems about the drain writer\<close>


text \<open>Claim C6. For every envelope whose body is not a \<open>Log\<close>, \<open>Write\<close> returns nil and
  leaves the writer (connection, closed flag, egress metric) and the world (no dial, no
  message handed to the connection) exactly as they were.\<close>

theorem C6_nonlog_write_noop:
  "GetLog env = None \<Longrightarrow> Write evs io cerr env w wd = Some (None, w, wd)"
  by (simp add: Write_def)

theorem C6_witness:
  "GetLog counterEnv = None
   \<and> Write [DialOk 1] None None counterEnv writer0 world0 = Some (None, writer0, world0)"
  using C6_nonlog_write_noop [of counterEnv "[DialOk 1]" None None writer0 world0]
  by (simp add: GetLog_def counterEnv_def)

text \<open>Claim C5. In \<open>connect\<close>: a closed writer returns an error at once without dialing; a
  failed dial with the context done returns the dial error at once; any other failed dial
  is followed by a sleep of sixty seconds and a new turn of the loop.\<close>

theorem C5_connect_dial_failure:
  "(closed w \<longrightarrow> connect evs w wd = Some (Inl errAfterClose, w, wd))
   \<and> (\<not> closed w \<longrightarrow>
        connect (DialErr err True # evs) w wd
          = Some (Inl err, w, wd\<lparr>dialed := dialed wd @ [url_Host w]\<rparr>))
   \<and> (\<not> closed w \<longrightarrow>
        connect (DialErr err False # evs) w wd
          = connect evs w (wd\<lparr>dialed := dialed wd @ [url_Host w],
                               slept := slept wd @ [60 * 1000000000]\<rparr>))"
  by (cases evs) (simp_all add: time_Minute_def time_Second_def)

theorem C5_witness:
  "closed (writer0\<lparr>closed := True\<rparr>)
   \<and> connect [DialOk 1] (writer0\<lparr>closed := True\<rparr>) world0
       = Some (Inl errAfterClose, writer0\<lparr>closed := True\<rparr>, world0)
   \<and> \<not> closed writer0
   \<and> connect [DialErr ''refused'' True, DialOk 1] writer0 world0
       = Some (Inl ''refused'', writer0, world0\<lparr>dialed := [''example.com:1234'']\<rparr>)
   \<and> connect [DialErr ''refused'' False, DialOk 1] writer0 world0
       = Some (Inr 1, writer0\<lparr>conn := Some 1\<rparr>,
               world0\<lparr>dialed := [''example.com:1234'', ''example.com:1234''],
                      slept := [60000000000]\<rparr>)"
  using C5_connect_dial_failure [of "writer0\<lparr>closed := True\<rparr>" "[DialOk 1]" world0 "''refused''"]
        C5_connect_dial_failure [of writer0 "[DialOk 1]" world0 "''refused''"]
  by (simp add: writer0_def world0_def time_Minute_def time_Second_def)

lemma connClose_wire: "connClose cerr w wd = (r, w', wd') \<Longrightarrow> wire wd' = wire wd \<and> egressMetric w' = egressMetric w"
  by (auto simp: connClose_def split: option.splits)

text \<open>Claim C1, as stated: a log of a type other than \<open>OUT\<close> and \<open>ERR\<close> is dropped by the
  writer. It fails for the log type 2 on a connected writer: \<open>Write\<close> hands a message of
  priority \<open>-1\<close> to the connection, returns nil and counts it as egress.\<close>

theorem C1_unknown_type_dropped_counterexample:
  "GetLog (logEnv 2) = Some \<lparr>Payload = [104, 105], Type = 2\<rparr>
   \<and> (2 :: Log_Type) \<noteq> Log_OUT \<and> (2 :: Log_Type) \<noteq> Log_ERR
   \<and> Write [] None None (logEnv 2) (writer0\<lparr>conn := Some 1\<rparr>) world0
       = Some (None, writer0\<lparr>conn := Some 1, egressMetric := 1\<rparr>,
               world0\<lparr>wire := [(1, \<lparr>Priority = - 1, MsgTimestamp = 0, MsgHostname = ''host'',
                                     AppName = ''app'', ProcessID = ''[APP/3]'',
                                     MsgBody = [104, 105, 10]\<rparr>, None)]\<rparr>)"
  by (simp add: Write_def GetLog_def logEnv_def writer0_def world0_def connection_def
      buildMessage_def generatePriority_def Log_OUT_def Log_ERR_def GetText_def
      generateProcessID_def upperChar_def appendNewline_def removeNulls_def HasSuffix_def)

text \<open>Claim C1, amended. For a log of a type other than \<open>OUT\<close> and \<open>ERR\<close> the priority is
  \<open>-1\<close>, and \<open>Write\<close> does not drop the envelope: once it has a connection it hands exactly
  one message, of priority \<open>-1\<close>, to the encoder on that connection, returns what the
  encoder returned, and counts the envelope as egress when that is nil.\<close>

theorem C1_unknown_type_written_with_priority_minus_one:
  assumes "GetLog env = Some l" and "Type l \<noteq> Log_OUT" and "Type l \<noteq> Log_ERR"
    and "connection evs w wd = Some (Inr c, w1, wd1)"
  shows "Priority (buildMessage w env l) = - 1
     \<and> (\<exists>w2 wd2. Write evs io cerr env w wd = Some (io, w2, wd2)
           \<and> wire wd2 = wire wd1 @ [(c, buildMessage w env l, io)]
           \<and> egressMetric w2 = egressMetric w1 + (if io = None then 1 else 0))"
proof -
  have p: "Priority (buildMessage w env l) = - 1"
    using assms(2,3) by (simp add: buildMessage_def generatePriority_def)
  show ?thesis
  proof (cases io)
    case None
    then show ?thesis using p assms(1,4) by (simp add: Write_def)
  next
    case (Some err)
    obtain r w2 wd2 where cc:
      "connClose cerr w1 (wd1\<lparr>wire := wire wd1 @ [(c, buildMessage w env l, io)]\<rparr>) = (r, w2, wd2)"
      by (metis prod_cases3)
    from connClose_wire [OF cc] Some p assms(1,4) cc show ?thesis
      by (simp add: Write_def)
  qed
qed

theorem C1_witness:
  "GetLog (logEnv 2) = Some \<lparr>Payload = [104, 105], Type = 2\<rparr>
   \<and> Priority (buildMessage writer0 (logEnv 2) \<lparr>Payload = [104, 105], Type = 2\<rparr>) = - 1
   \<and> (\<exists>w2 wd2. Write [DialOk 1] (Some ''broken pipe'') None (logEnv 2) writer0 world0
                   = Some (Some ''broken pipe'', w2, wd2)
         \<and> wire wd2 = [(1, buildMessage writer0 (logEnv 2) \<lparr>Payload = [104, 105], Type = 2\<rparr>,
                          Some ''broken pipe'')]
         \<and> egressMetric w2 = 0)"
proof -
  have g: "GetLog (logEnv 2) = Some \<lparr>Payload = [104, 105], Type = 2\<rparr>"
    by (simp add: GetLog_def logEnv_def)
  have t1: "Type \<lparr>Payload = [104, 105], Type = 2\<rparr> \<noteq> Log_OUT" by (simp add: Log_OUT_def)
  have t2: "Type \<lparr>Payload = [104, 105], Type = 2\<rparr> \<noteq> Log_ERR" by (simp add: Log_ERR_def)
  have c: "connection [DialOk 1] writer0 world0
             = Some (Inr 1, writer0\<lparr>conn := Some 1\<rparr>, world0\<lparr>dialed := [''example.com:1234'']\<rparr>)"
    by (simp add: connection_def writer0_def world0_def)
  from C1_unknown_type_written_with_priority_minus_one
         [OF g t1 t2 c, of "Some ''broken pipe''" None] g
  show ?thesis by (simp add: writer0_def world0_def)
qed

text \<open>Claim C2, as stated: after \<open>Close\<close> every \<open>Write\<close>, for any envelope, returns a closed
  error. It fails for a counter envelope: \<open>Write\<close> on the closed writer returns nil.\<close>

theorem C2_write_after_close_counterexample:
  "Close None writer0 world0 = (None, writer0\<lparr>closed := True\<rparr>, world0)
   \<and> Write [DialOk 1] None None counterEnv (writer0\<lparr>closed := True\<rparr>) world0
       = Some (None, writer0\<lparr>closed := True\<rparr>, world0)"
  by (simp add: Close_def connClose_def Write_def GetLog_def counterEnv_def writer0_def)

text \<open>Claim C2, amended. After \<open>Close\<close> the writer is closed and has no connection; every
  later \<open>Write\<close> leaves writer and world unchanged (nothing is dialed or written) and
  returns the error \<open>attempting connect after close\<close> for a log envelope and nil for any
  other envelope; a second \<open>Close\<close> changes nothing and returns nil.\<close>

theorem C2_after_close:
  assumes "Close cerr w wd = (r, w1, wd1)"
  shows "closed w1 \<and> conn w1 = None
     \<and> Write evs io cerr' env w1 wd1
         = Some (if GetLog env = None then None else Some errAfterClose, w1, wd1)
     \<and> Close cerr'' w1 wd1 = (None, w1, wd1)"
proof -
  from assms have a: "closed w1" and b: "conn w1 = None"
    by (auto simp: Close_def connClose_def split: option.splits)
  have c: "connection evs w1 wd1 = Some (Inl errAfterClose, w1, wd1)"
    using a b by (cases evs) (simp_all add: connection_def)
  have d: "w1\<lparr>closed := True\<rparr> = w1" using a by simp
  show ?thesis using a b c d
    by (simp add: Write_def Close_def connClose_def split: option.splits)
qed

theorem C2_witness:
  "Close (Some ''reset'') (writer0\<lparr>conn := Some 1\<rparr>) world0
     = (Some ''reset'', writer0\<lparr>closed := True\<rparr>, world0\<lparr>conn_closed := [1]\<rparr>)
   \<and> Write [DialOk 2] None None (logEnv 0) (writer0\<lparr>closed := True\<rparr>) (world0\<lparr>conn_closed := [1]\<rparr>)
       = Some (Some errAfterClose, writer0\<lparr>closed := True\<rparr>, world0\<lparr>conn_closed := [1]\<rparr>)
   \<and> Close (Some ''reset'') (writer0\<lparr>closed := True\<rparr>) (world0\<lparr>conn_closed := [1]\<rparr>)
       = (None, writer0\<lparr>closed := True\<rparr>, world0\<lparr>conn_closed := [1]\<rparr>)"
proof -
  have h: "Close (Some ''reset'') (writer0\<lparr>conn := Some 1\<rparr>) world0
     = (Some ''reset'', writer0\<lparr>closed := True\<rparr>, world0\<lparr>conn_closed := [1]\<rparr>)"
    by (simp add: Close_def connClose_def writer0_def world0_def)
  have g: "GetLog (logEnv 0) \<noteq> None" by (simp add: GetLog_def logEnv_def)
  from C2_after_close [OF h, of "[DialOk 2]" None None "logEnv 0" "Some ''reset''"] h g
  show ?thesis by simp
qed

section \<open>Theorems about the counter metric\<close>

text \<open>Claim C10. \<open>SendWith\<close>, without interleaved increments, passes the callback an envelope
  whose counter delta is the stored delta and returns what the callback returns; when the
  callback succeeds the stored delta is zero afterwards; when it fails the swapped-out delta
  is added back, so the metric is exactly what it was before the call.\<close>

theorem C10_SendWith_swaps_and_restores:
  "GetDeltaOf (GetCounter (toEnvelope now m (GetDelta m))) = GetDelta m
   \<and> fst (SendWith fn now m) = fn (toEnvelope now m (GetDelta m))
   \<and> (fn (toEnvelope now m (GetDelta m)) = None \<longrightarrow>
        snd (SendWith fn now m) = m\<lparr>delta := 0\<rparr> \<and> GetDelta (snd (SendWith fn now m)) = 0)
   \<and> (fn (toEnvelope now m (GetDelta m)) \<noteq> None \<longrightarrow>
        snd (SendWith fn now m) = m \<and> GetDelta (snd (SendWith fn now m)) = GetDelta m)"
  by (auto simp: SendWith_def toEnvelope_def GetDelta_def GetDeltaOf_def GetCounter_def Let_def
      split: option.splits)

theorem C10_witness:
  "SendWith (\<lambda>e. if GetDeltaOf (GetCounter e) = 7 then Some ''unavailable'' else None) 5 metric0
     = (Some ''unavailable'', metric0)
   \<and> SendWith (\<lambda>e. None) 5 metric0 = (None, metric0\<lparr>delta := 0\<rparr>)"
proof -
  let ?f = "\<lambda>e. if GetDeltaOf (GetCounter e) = 7 then Some ''unavailable'' else None"
  have d: "GetDelta metric0 = 7" by (simp add: GetDelta_def metric0_def)
  from C10_SendWith_swaps_and_restores [of 5 metric0 ?f]
       C10_SendWith_swaps_and_restores [of 5 metric0 "\<lambda>e. None"] d
  show ?thesis by (simp add: prod_eq_iff)
qed


section \<open>Theorems about the subscription worker\<close>

text \<open>The count is a \<open>uint64\<close>; below 1000 it agrees with the natural number it stands for.\<close>

lemma le_1000_of_nat: "n \<le> 1000 \<Longrightarrow> ((1000::64 word) \<le> of_nat n) = (1000 \<le> n)"
  by (simp add: word_le_nat_alt unat_of_nat)

lemma unat_of_nat_small: "n < 1000 \<Longrightarrow> unat (of_nat n :: 64 word) = n"
  by (simp add: unat_of_nat)

lemma not_1000_le_1: "\<not> (1000::64 word) \<le> 1"
  by (simp add: word_le_nat_alt)

text \<open>One turn of the loop: an ending turn, a turn whose envelope is not a log, a log that
  triggers an emission and a log that does not.\<close>

lemma loop_ends:
  "ends fin \<Longrightarrow> loop [fin] st = Some (result_of fin, st\<lparr>received := received st + recvs_of fin\<rparr>)"
  by (auto simp: ends_def result_of_def recvs_of_def split: sum.splits)

lemma loop_skip:
  assumes "receives it" and "log_of it = []"
  shows "loop (it # its) st = loop its (st\<lparr>received := received st + 1\<rparr>)"
  using assms by (auto simp: receives_def log_of_def split: sum.splits if_splits)

lemma loop_emit:
  assumes "receives it" and "log_of it = [env]" and "count st = of_nat n" and "n < 1000"
    and "1000 \<le> n + 1 \<or> 5 * time_Second < since_at it - lastEmitted st"
  shows "loop (it # its) st
           = loop its (st\<lparr>received := received st + 1, count := 0, lastEmitted := now_at it,
                          ingress := ingress st @ [count st + 1],
                          written := written st @ [env]\<rparr>)"
proof -
  have "((1000::64 word) \<le> of_nat (n + 1)) = (1000 \<le> n + 1)"
    using assms(4) by (intro le_1000_of_nat) simp
  then have c: "((1000::64 word) \<le> of_nat n + 1) = (1000 \<le> n + 1)" by (simp add: add.commute)
  from assms(1,2) obtain "recv it = Inr env" and "GetLog env \<noteq> None" and "\<not> 0 < sint (flag_seen it)"
    by (auto simp: receives_def log_of_def split: sum.splits if_splits)
  then show ?thesis using assms(3,5) c by (auto simp: Let_def)
qed

lemma loop_keep:
  assumes "receives it" and "log_of it = [env]" and "count st = of_nat n" and "n < 1000"
    and "\<not> (1000 \<le> n + 1 \<or> 5 * time_Second < since_at it - lastEmitted st)"
  shows "loop (it # its) st
           = loop its (st\<lparr>received := received st + 1, count := count st + 1,
                          written := written st @ [env]\<rparr>)"
proof -
  have "((1000::64 word) \<le> of_nat (n + 1)) = (1000 \<le> n + 1)"
    using assms(4) by (intro le_1000_of_nat) simp
  then have c: "((1000::64 word) \<le> of_nat n + 1) = (1000 \<le> n + 1)" by (simp add: add.commute)
  from assms(1,2) obtain "recv it = Inr env" and "GetLog env \<noteq> None" and "\<not> 0 < sint (flag_seen it)"
    by (auto simp: receives_def log_of_def split: sum.splits if_splits)
  then show ?thesis using assms(3,5) c by (auto simp: Let_def)
qed

lemma log_of_cases: "log_of it = [] \<or> (\<exists>env. log_of it = [env])"
  by (simp add: log_of_def split: sum.splits)

text \<open>A whole run from a state whose count is \<open>n < 1000\<close>: the loop returns, and its
  increments are those of \<open>spec_batches\<close>.\<close>

lemma loop_run:
  assumes "\<forall>it \<in> set its. receives it" and "ends fin" and "count st = of_nat n" and "n < 1000"
  shows "\<exists>st'. loop (its @ [fin]) st = Some (result_of fin, st')
      \<and> ingress st' = ingress st @ map of_nat (spec_batches n (lastEmitted st) (log_turns its))
      \<and> written st' = written st @ log_envs its
      \<and> received st' = received st + length its + recvs_of fin
      \<and> unat (count st') < 1000
      \<and> sum_list (spec_batches n (lastEmitted st) (log_turns its)) + unat (count st')
            = n + length (log_turns its)"
  using assms
proof (induction its arbitrary: st n)
  case Nil
  from loop_ends [OF Nil.prems(2), of st] Nil.prems(3,4) show ?case
    by (simp add: log_turns_def log_envs_def unat_of_nat_small del: loop.simps)
next
  case (Cons it its)
  from Cons.prems(1) have r: "receives it" and rs: "\<forall>it \<in> set its. receives it" by simp_all
  consider (skip) "log_of it = []" | (log) env where "log_of it = [env]"
    using log_of_cases by blast
  then show ?case
  proof cases
    case skip
    let ?st = "st\<lparr>received := received st + 1\<rparr>"
    have "count ?st = of_nat n" using Cons.prems(3) by simp
    from Cons.IH [OF rs Cons.prems(2) this Cons.prems(4)] loop_skip [OF r skip, of "its @ [fin]" st] skip
    show ?thesis by (simp add: log_turns_def log_envs_def)
  next
    case log
    show ?thesis
    proof (cases "1000 \<le> n + 1 \<or> 5 * time_Second < since_at it - lastEmitted st")
      case True
      let ?st = "st\<lparr>received := received st + 1, count := 0, lastEmitted := now_at it,
                          ingress := ingress st @ [count st + 1],
                          written := written st @ [env]\<rparr>"
      have c: "count ?st = of_nat 0" by simp
      have z: "(0::nat) < 1000" by simp
      from Cons.IH [OF rs Cons.prems(2) c z]
        loop_emit [OF r log Cons.prems(3,4) True, of "its @ [fin]"] log True Cons.prems(3)
      show ?thesis by (simp add: log_turns_def log_envs_def add.commute)
    next
      case False
      let ?st = "st\<lparr>received := received st + 1, count := count st + 1,
                          written := written st @ [env]\<rparr>"
      have c: "count ?st = of_nat (n + 1)" using Cons.prems(3) by (simp add: add.commute)
      have z: "n + 1 < 1000" using False by simp
      from Cons.IH [OF rs Cons.prems(2) c z]
        loop_keep [OF r log Cons.prems(3,4) False, of "its @ [fin]"] log False
      show ?thesis by (simp add: log_turns_def log_envs_def)
    qed
  qed
qed

lemma spec_batches_bounds: "n < 1000 \<Longrightarrow> v \<in> set (spec_batches n l0 ts) \<Longrightarrow> 1 \<le> v \<and> v \<le> 1000"
proof (induction n l0 ts rule: spec_batches.induct)
  case (1 n l0)
  then show ?case by simp
next
  case (2 n l0 t t' ts)
  then show ?case by (auto split: if_splits)
qed

lemma spec_batches_quiet:
  "n + length ts < 1000 \<Longrightarrow> \<forall>(t, t') \<in> set ts. t - l0 \<le> 5 * time_Second \<Longrightarrow> spec_batches n l0 ts = []"
proof (induction n l0 ts rule: spec_batches.induct)
  case (1 n l0)
  then show ?case by simp
next
  case (2 n l0 t t' ts)
  then show ?case by auto
qed

lemma spec_batches_full:
  "n + length ts + 1 = 1000 \<Longrightarrow> \<forall>(t, t') \<in> set ts. t - l0 \<le> 5 * time_Second
     \<Longrightarrow> spec_batches n l0 (ts @ (u, u') # us) = 1000 # spec_batches 0 u' us"
proof (induction n l0 ts rule: spec_batches.induct)
  case (1 n l0)
  then show ?case by simp
next
  case (2 n l0 t t' ts)
  then show ?case by auto
qed

text \<open>Claim C3. For every run of \<open>readWriteLoop\<close> that receives the envelopes of \<open>its\<close> and
  then ends, the loop returns, and the increments of the \<open>ingress\<close> counter are exactly the
  batches of the spec: counting only envelopes whose body is a \<open>Log\<close>, from zero at the start
  and after every emission, an increment by the batched count is made at the log envelope
  with which the count reaches 1000 or at which more than five seconds have passed since the
  last emission (the start, at first), whichever comes first. Every increment is between 1
  and 1000, the increments and the count left at the end add up to the number of log
  envelopes received, every log envelope is passed to the writer, and envelopes of any other
  body change neither the count nor the increments.\<close>

theorem C3_ingress_emission:
  assumes "\<forall>it \<in> set its. receives it" and "ends fin"
  shows "\<exists>st. readWriteLoop t0 (its @ [fin]) = Some (result_of fin, st)
     \<and> ingress st = map of_nat (spec_batches 0 t0 (log_turns its))
     \<and> written st = log_envs its
     \<and> received st = length its + recvs_of fin
     \<and> unat (count st) < 1000
     \<and> sum_list (spec_batches 0 t0 (log_turns its)) + unat (count st) = length (log_turns its)
     \<and> (\<forall>v \<in> set (spec_batches 0 t0 (log_turns its)). 1 \<le> v \<and> v \<le> 1000)"
proof -
  let ?st = "\<lparr>count = 0, lastEmitted = t0, ingress = [], written = [], received = 0\<rparr>"
  have c: "count ?st = of_nat 0" by simp
  have z: "(0::nat) < 1000" by simp
  have b: "\<forall>v \<in> set (spec_batches 0 t0 (log_turns its)). 1 \<le> v \<and> v \<le> 1000"
    using spec_batches_bounds [OF z] by blast
  from loop_run [OF assms c z] b show ?thesis
    by (simp add: readWriteLoop_def)
qed

theorem C3_witness:
  "list_all receives mixedRun \<and> ends stopIt
   \<and> readWriteLoop 0 (mixedRun @ [stopIt])
       = Some (None, \<lparr>count = 1, lastEmitted = 5000000002, ingress = [2],
                       written = [logEnv 0, logEnv 1, logEnv 0], received = 4\<rparr>)
   \<and> spec_batches 0 0 (log_turns mixedRun) = [2]"
proof -
  have r: "\<forall>it \<in> set mixedRun. receives it"
    by (simp add: mixedRun_def receives_def recvIt_def)
  have e: "ends stopIt" by (simp add: ends_def stopIt_def)
  have g: "GetLog counterEnv = None" "GetLog (logEnv 0) \<noteq> None" "GetLog (logEnv 1) \<noteq> None"
    by (simp_all add: GetLog_def counterEnv_def logEnv_def)
  have b: "spec_batches 0 0 (log_turns mixedRun) = [2]"
    using g by (simp add: log_turns_def mixedRun_def log_of_def recvIt_def time_Second_def)
  have l: "readWriteLoop 0 (mixedRun @ [stopIt])
       = Some (None, \<lparr>count = 1, lastEmitted = 5000000002, ingress = [2],
                       written = [logEnv 0, logEnv 1, logEnv 0], received = 4\<rparr>)"
    using g not_1000_le_1
    by (simp add: readWriteLoop_def mixedRun_def recvIt_def stopIt_def Let_def time_Second_def)
  from C3_ingress_emission [OF r e, of 0] r e b l show ?thesis by (simp add: list_all_iff)
qed

text \<open>Three readings of the same fact that do not go through \<open>spec_batches\<close>: fewer than 1000
  log envelopes, all within five seconds of the start, give no increment; the thousandth
  log envelope within five seconds gives an increment of 1000; a first log envelope later
  than five seconds after the start gives an increment of 1.\<close>

lemma readWriteLoop_quiet:
  assumes "\<forall>it \<in> set its. receives it" and "ends fin"
    and "length (log_turns its) < 1000"
    and "\<forall>(t, t') \<in> set (log_turns its). t - t0 \<le> 5 * time_Second"
  shows "\<exists>st. readWriteLoop t0 (its @ [fin]) = Some (result_of fin, st)
     \<and> ingress st = [] \<and> unat (count st) = length (log_turns its)"
proof -
  let ?st = "\<lparr>count = 0, lastEmitted = t0, ingress = [], written = [], received = 0\<rparr>"
  have c: "count ?st = of_nat 0" by simp
  have z: "(0::nat) < 1000" by simp
  have q: "spec_batches 0 t0 (log_turns its) = []"
    using assms(3,4) by (intro spec_batches_quiet) simp_all
  from loop_run [OF assms(1,2) c z] q show ?thesis
    by (auto simp: readWriteLoop_def simp del: loop.simps)
qed

lemma readWriteLoop_thousandth:
  assumes "\<forall>it \<in> set (its @ it # later). receives it" and "ends fin"
    and "length (log_turns its) = 999" and "log_of it \<noteq> []"
    and "\<forall>(t, t') \<in> set (log_turns its). t - t0 \<le> 5 * time_Second"
  shows "\<exists>st. readWriteLoop t0 (its @ it # later @ [fin]) = Some (result_of fin, st)
     \<and> ingress st = 1000 # map of_nat (spec_batches 0 (now_at it) (log_turns later))"
proof -
  let ?st = "\<lparr>count = 0, lastEmitted = t0, ingress = [], written = [], received = 0\<rparr>"
  have c: "count ?st = of_nat 0" by simp
  have z: "(0::nat) < 1000" by simp
  have lt: "log_turns (its @ it # later) = log_turns its @ (since_at it, now_at it) # log_turns later"
    using assms(4) by (simp add: log_turns_def)
  have q: "spec_batches 0 t0 (log_turns (its @ it # later)) = 1000 # spec_batches 0 (now_at it) (log_turns later)"
    unfolding lt using assms(3,5) by (intro spec_batches_full) simp_all
  from loop_run [OF assms(1,2) c z] q show ?thesis
    by (auto simp: readWriteLoop_def simp del: loop.simps)
qed

lemma readWriteLoop_late:
  assumes "\<forall>x \<in> set (it # later). receives x" and "ends fin"
    and "log_of it \<noteq> []" and "5 * time_Second < since_at it - t0"
  shows "\<exists>st. readWriteLoop t0 (it # later @ [fin]) = Some (result_of fin, st)
     \<and> ingress st = 1 # map of_nat (spec_batches 0 (now_at it) (log_turns later))"
proof -
  let ?st = "\<lparr>count = 0, lastEmitted = t0, ingress = [], written = [], received = 0\<rparr>"
  have c: "count ?st = of_nat 0" by simp
  have z: "(0::nat) < 1000" by simp
  have q: "spec_batches 0 t0 (log_turns (it # later)) = 1 # spec_batches 0 (now_at it) (log_turns later)"
    using assms(3,4) by (simp add: log_turns_def)
  from loop_run [OF assms(1,2) c z] q show ?thesis
    by (auto simp: readWriteLoop_def simp del: loop.simps)
qed

text \<open>A positive flag ends the loop: the turns after it are never made, and when all turns
  before it receive an envelope the loop returns nil at it, having called \<open>Recv\<close> once for
  each of them.\<close>

lemma loop_after_stop: "0 < sint (flag_seen it) \<Longrightarrow> loop (pre @ it # its) st = loop (pre @ [it]) st \<and> loop (pre @ [it]) st \<noteq> None"
proof (induction pre arbitrary: st)
  case Nil
  then show ?case by simp
next
  case (Cons a pre)
  show ?case
    using Cons.IH [OF Cons.prems] by (simp add: Let_def split: sum.splits)
qed

lemma loop_reaches_stop:
  assumes "\<forall>x \<in> set pre. receives x" and "0 < sint (flag_seen it)"
  shows "\<exists>st'. loop (pre @ it # its) st = Some (None, st') \<and> received st' = received st + length pre"
  using assms(1)
proof (induction pre arbitrary: st)
  case Nil
  then show ?case using assms(2) by simp
next
  case (Cons a pre)
  from Cons.prems have ra: "receives a" and rs: "\<forall>x \<in> set pre. receives x" by simp_all
  from ra obtain env where e: "recv a = Inr env" and f: "\<not> 0 < sint (flag_seen a)"
    by (auto simp: receives_def split: sum.splits)
  have "\<exists>st2. loop (a # pre @ it # its) st = loop (pre @ it # its) st2
          \<and> received st2 = received st + 1"
    using e f by (cases "GetLog env") (auto simp: Let_def)
  then obtain st2 where s: "loop (a # pre @ it # its) st = loop (pre @ it # its) st2"
    and r: "received st2 = received st + 1" by blast
  from Cons.IH [OF rs, of st2] s r show ?case by auto
qed

text \<open>Claim C9. One call of the stop function makes the flag positive. In every execution, at
  the first turn that loads a positive flag, after any number of received envelopes, the
  loop returns nil without a further \<open>Recv\<close>: the observations after that turn are never
  made. \<open>attemptConnectAndRead\<close> then returns false and \<open>connectAndRead\<close> returns with one
  \<open>Connect\<close> more than before, so the session is not restarted.\<close>

theorem C9_stop_ends_worker:
  assumes "0 < sint (flag_seen it)" and "\<forall>x \<in> set pre. receives x"
  shows "0 < sint (stop unsubscribe_init)
     \<and> loop (it # its) st = Some (None, st)
     \<and> loop (any @ it # its) st = loop (any @ [it]) st
     \<and> loop (any @ [it]) st \<noteq> None
     \<and> (\<exists>st'. loop (pre @ it # its) st = Some (None, st')
           \<and> received st' = received st + length pre)
     \<and> (\<exists>st'. readWriteLoop t0 (pre @ it # its) = Some (None, st')
           \<and> received st' = length pre
           \<and> attemptConnectAndRead (Stream t0 (pre @ it # its)) tr
               = Some (False, tr\<lparr>connects := connects tr + 1,
                                 receiver_calls := receiver_calls tr + 1,
                                 loops := loops tr @ [st'],
                                 cancels := cancels tr + 1,
                                 writer_closes := writer_closes tr + 1\<rparr>)
           \<and> connectAndRead (Stream t0 (pre @ it # its) # rest) tr
               = Some (tr\<lparr>connects := connects tr + 1,
                          receiver_calls := receiver_calls tr + 1,
                          loops := loops tr @ [st'],
                          cancels := cancels tr + 1,
                          writer_closes := writer_closes tr + 1\<rparr>))"
proof -
  let ?st0 = "\<lparr>count = 0, lastEmitted = t0, ingress = [], written = [], received = 0\<rparr>"
  from loop_reaches_stop [OF assms(2,1), of its ?st0]
  obtain st' where a: "loop (pre @ it # its) ?st0 = Some (None, st')" and b: "received st' = length pre"
    by auto
  have w: "\<exists>st'. readWriteLoop t0 (pre @ it # its) = Some (None, st')
           \<and> received st' = length pre
           \<and> attemptConnectAndRead (Stream t0 (pre @ it # its)) tr
               = Some (False, tr\<lparr>connects := connects tr + 1,
                                 receiver_calls := receiver_calls tr + 1,
                                 loops := loops tr @ [st'],
                                 cancels := cancels tr + 1,
                                 writer_closes := writer_closes tr + 1\<rparr>)
           \<and> connectAndRead (Stream t0 (pre @ it # its) # rest) tr
               = Some (tr\<lparr>connects := connects tr + 1,
                          receiver_calls := receiver_calls tr + 1,
                          loops := loops tr @ [st'],
                          cancels := cancels tr + 1,
                          writer_closes := writer_closes tr + 1\<rparr>)"
    using a b by (intro exI [of _ st']) (simp add: attemptConnectAndRead_def readWriteLoop_def)
  from w assms(1) loop_after_stop [OF assms(1), of any its st]
       loop_reaches_stop [OF assms(2,1), of its st]
  show ?thesis by (simp add: stop_def unsubscribe_init_def)
qed

theorem C9_witness:
  "0 < sint (flag_seen stopIt) \<and> receives (recvIt (logEnv 0) 7)
   \<and> connectAndRead [Stream 0 [recvIt (logEnv 0) 7, stopIt, recvIt (logEnv 1) 9],
                      ConnectErr ''unused''] trace0
       = Some (trace0\<lparr>connects := 1, receiver_calls := 1,
                      loops := [(loop0 1)\<lparr>received := 1, written := [logEnv 0]\<rparr>],
                      cancels := 1, writer_closes := 1\<rparr>)"
proof -
  have p: "0 < sint (flag_seen stopIt)" by (simp add: stopIt_def)
  have r: "\<forall>x \<in> set [recvIt (logEnv 0) 7]. receives x" by (simp add: receives_def recvIt_def)
  have g: "GetLog (logEnv 0) \<noteq> None" by (simp add: GetLog_def logEnv_def)
  have q: "connectAndRead [Stream 0 [recvIt (logEnv 0) 7, stopIt, recvIt (logEnv 1) 9],
                      ConnectErr ''unused''] trace0
       = Some (trace0\<lparr>connects := 1, receiver_calls := 1,
                      loops := [(loop0 1)\<lparr>received := 1, written := [logEnv 0]\<rparr>],
                      cancels := 1, writer_closes := 1\<rparr>)"
    using g not_1000_le_1
    by (simp add: attemptConnectAndRead_def readWriteLoop_def recvIt_def stopIt_def loop0_def
        trace0_def Let_def time_Second_def)
  from C9_stop_ends_worker [OF p r, of "[recvIt (logEnv 1) 9]" "loop0 0" "[]" 0 trace0
         "[ConnectErr ''unused'']"] p r q
  show ?thesis by simp
qed

lemma connectAndRead_stops: "connectAndRead (pre @ ConnectErr err # rest) tr = connectAndRead (pre @ [ConnectErr err]) tr"
proof (induction pre arbitrary: tr)
  case Nil
  then show ?case by (simp add: attemptConnectAndRead_def)
next
  case (Cons a pre)
  then show ?case by (simp split: option.splits)
qed

lemma connectAndRead_connects: "connectAndRead as tr = Some tr' \<Longrightarrow> connects tr' \<le> connects tr + length as \<and> connects tr < connects tr'"
proof (induction as arbitrary: tr)
  case Nil
  then show ?case by simp
next
  case (Cons a as)
  from Cons.prems obtain cont tr1 where a: "attemptConnectAndRead a tr = Some (cont, tr1)"
    by (auto split: option.splits)
  have c: "connects tr1 = connects tr + 1"
    using a by (auto simp: attemptConnectAndRead_def Let_def split: attempt.splits option.splits)
  show ?case
  proof (cases cont)
    case True
    with a Cons.prems have "connectAndRead as tr1 = Some tr'" by simp
    from Cons.IH [OF this] c show ?thesis by simp
  next
    case False
    with a Cons.prems have "tr' = tr1" by simp
    with c show ?thesis by simp
  qed
qed

text \<open>Claim C4. Whenever \<open>connector.Connect\<close> returns an error, at the first attempt or after
  any number of restarted sessions, \<open>attemptConnectAndRead\<close> returns false and the outer loop
  ends: the sessions after it are never attempted and no further \<open>Connect\<close> is made.\<close>

theorem C4_connect_error_not_retried:
  "attemptConnectAndRead (ConnectErr err) tr = Some (False, tr\<lparr>connects := connects tr + 1\<rparr>)
   \<and> connectAndRead (ConnectErr err # rest) tr = Some (tr\<lparr>connects := connects tr + 1\<rparr>)
   \<and> connectAndRead (pre @ ConnectErr err # rest) tr = connectAndRead (pre @ [ConnectErr err]) tr
   \<and> (\<forall>tr'. connectAndRead (pre @ ConnectErr err # rest) tr = Some tr' \<longrightarrow>
              connects tr' \<le> connects tr + length pre + 1)"
proof -
  have "\<And>tr'. connectAndRead (pre @ [ConnectErr err]) tr = Some tr' \<Longrightarrow>
              connects tr' \<le> connects tr + length pre + 1"
    using connectAndRead_connects [of "pre @ [ConnectErr err]" tr] by simp
  then show ?thesis
    using connectAndRead_stops [of pre err rest tr] by (simp add: attemptConnectAndRead_def)
qed

theorem C4_witness:
  "connectAndRead [ReceiverErr ''unavailable'', ConnectErr ''bad url'', ReceiverErr ''unused''] trace0
     = Some (trace0\<lparr>connects := 2, receiver_calls := 1, writer_closes := 1\<rparr>)
   \<and> connects (trace0\<lparr>connects := 2, receiver_calls := 1, writer_closes := 1\<rparr>)
       \<le> connects trace0 + length [ReceiverErr ''unavailable''] + 1"
proof -
  have e: "connectAndRead [ReceiverErr ''unavailable'', ConnectErr ''bad url''] trace0
     = Some (trace0\<lparr>connects := 2, receiver_calls := 1, writer_closes := 1\<rparr>)"
    by (simp add: attemptConnectAndRead_def trace0_def)
  from C4_connect_error_not_retried [of "''bad url''" trace0 "[ReceiverErr ''unused'']"
         "[ReceiverErr ''unavailable'']"] e
  show ?thesis by simp
qed

section \<open>Theorems about the version filter\<close>

text \<open>The filter on the input of the test \<open>ignores malformed drain URLs\<close> gives the test's
  expected output, and an error of the wrapped reader is returned as it is.\<close>

lemma VersionFilter_ignores_malformed:
  "FetchBindings testParse (Inr malformedInput)
     = Inr [''app-id-with-malformed-drains'' \<mapsto>
              \<lparr>Drains = [''syslog://example.com:1234/?drain-version=2.0''],
               Hostname = ''we.dont.care''\<rparr>]"
  by (auto simp: FetchBindings_def VersionFilter_def malformedInput_def keepDrain_def
      testParse_def query_Get_def fun_eq_iff)

lemma FetchBindings_reader_error:
  "FetchBindings parse (Inl err) = Inl err"
  by (simp add: FetchBindings_def)

text \<open>Claim C7. For every input, every drain URL in the version filter's output parses and
  carries \<open>drain-version=2.0\<close>, every app of the output has at least one drain and keeps its
  hostname, and an app whose drain list becomes empty by the removal (in particular one
  whose drains all fail to parse) is absent from the output.\<close>

theorem C7_version_filter:
  "(VersionFilter parse input app = Some b \<longrightarrow>
      Drains b \<noteq> []
      \<and> (\<forall>d \<in> set (Drains b). \<exists>q. parse d = Some q \<and> query_Get q ''drain-version'' = ''2.0'')
      \<and> (\<exists>b0. input app = Some b0 \<and> Hostname b = Hostname b0
               \<and> Drains b = filter (keepDrain parse) (Drains b0)))
   \<and> (input app = Some b0 \<and> filter (keepDrain parse) (Drains b0) = [] \<longrightarrow>
        VersionFilter parse input app = None)
   \<and> (input app = Some b0 \<and> (\<forall>d \<in> set (Drains b0). parse d = None) \<longrightarrow>
        VersionFilter parse input app = None)"
proof -
  have k: "\<And>d. keepDrain parse d \<Longrightarrow> \<exists>q. parse d = Some q \<and> query_Get q ''drain-version'' = ''2.0''"
    by (auto simp: keepDrain_def split: option.splits)
  have n: "(\<forall>d \<in> set (Drains b0). parse d = None) \<Longrightarrow> filter (keepDrain parse) (Drains b0) = []"
    by (auto simp: keepDrain_def filter_empty_conv)
  show ?thesis
    using k n
    by (auto simp: VersionFilter_def Let_def split: option.splits if_splits)
qed

theorem C7_witness:
  "VersionFilter testParse malformedInput ''app-id-with-malformed-drains''
     = Some \<lparr>Drains = [''syslog://example.com:1234/?drain-version=2.0''], Hostname = ''we.dont.care''\<rparr>
   \<and> testParse ''syslog://example.com:1234/?drain-version=2.0'' = Some [(''drain-version'', ''2.0'')]
   \<and> malformedInput ''app-id-with-single-malformed-drain''
       = Some \<lparr>Drains = [''://another-bad-url/?drain-version=2.0''], Hostname = ''we.dont.care''\<rparr>
   \<and> VersionFilter testParse malformedInput ''app-id-with-single-malformed-drain'' = None"
proof -
  have a: "VersionFilter testParse malformedInput ''app-id-with-malformed-drains''
     = Some \<lparr>Drains = [''syslog://example.com:1234/?drain-version=2.0''], Hostname = ''we.dont.care''\<rparr>"
    by (simp add: VersionFilter_def malformedInput_def keepDrain_def testParse_def query_Get_def)
  have b: "malformedInput ''app-id-with-single-malformed-drain''
       = Some \<lparr>Drains = [''://another-bad-url/?drain-version=2.0''], Hostname = ''we.dont.care''\<rparr>"
    by (simp add: malformedInput_def)
  have c: "\<forall>d \<in> set (Drains \<lparr>Drains = [''://another-bad-url/?drain-version=2.0''], Hostname = ''we.dont.care''\<rparr>).
             testParse d = None"
    by (simp add: testParse_def)
  from C7_version_filter [of testParse malformedInput "''app-id-with-malformed-drains''"
         "\<lparr>Drains = [''syslog://example.com:1234/?drain-version=2.0''], Hostname = ''we.dont.care''\<rparr>"]
       C7_version_filter [of testParse malformedInput "''app-id-with-single-malformed-drain''" _
         "\<lparr>Drains = [''://another-bad-url/?drain-version=2.0''], Hostname = ''we.dont.care''\<rparr>"]
       a b c
  show ?thesis by (simp add: testParse_def)
qed

end
